theory Spec2Isabelle
  imports Main "HOL-Library.Multiset"
begin

section \<open>Python values used by the converter\<close>

text \<open>
  The development embeds \<^verbatim>\<open>csv_to_xlsx_converter.py\<close>: the parser
  \<^verbatim>\<open>parse_csv_questions\<close>, the table builder \<^verbatim>\<open>create_xlsx_output\<close>
  and the part of \<^verbatim>\<open>main\<close> that connects them.

  Text. A Python \<^verbatim>\<open>str\<close> is a sequence of code points. Input text is a
  \<^typ>\<open>string\<close>; the 8-bit character \<open>c\<close> stands for the code point
  \<open>of_char c\<close>, so the input alphabet is exactly the code points 0..255 and
  \<open>length\<close> counts code points as Python's \<^verbatim>\<open>len\<close> does. On this
  alphabet the classification and case tables below are Python's own
  (\<^verbatim>\<open>str.isspace\<close>, \<^verbatim>\<open>str.isdigit\<close>, \<^verbatim>\<open>str.isalpha\<close>,
  \<^verbatim>\<open>str.lower\<close>, \<^verbatim>\<open>str.upper\<close>). Upper-casing leaves the
  alphabet in two places (U+00B5 to U+039C, U+00FF to U+0178) and lengthens the
  text in one (U+00DF to "SS"), and \<^verbatim>\<open>chr\<close> reaches every code point, so
  text that the program computes is a list of code points, \<open>ustr\<close>.
\<close>

datatype error = AttributeError | ValueError | TypeError

type_synonym ustr = "nat list"

definition cps :: "string \<Rightarrow> ustr" where
  "cps s = map of_char s"

definition isspace_cp :: "nat \<Rightarrow> bool" where
  "isspace_cp n = ((9 \<le> n \<and> n \<le> 13) \<or> (28 \<le> n \<and> n \<le> 32) \<or> n = 133 \<or> n = 160)"

definition isdecimal_cp :: "nat \<Rightarrow> bool" where
  "isdecimal_cp n = (48 \<le> n \<and> n \<le> 57)"

text \<open>\<^verbatim>\<open>str.isdigit\<close> also accepts the superscript digits U+00B2, U+00B3 and U+00B9,
  which \<^verbatim>\<open>int\<close> rejects.\<close>

definition isdigit_cp :: "nat \<Rightarrow> bool" where
  "isdigit_cp n = (isdecimal_cp n \<or> n = 178 \<or> n = 179 \<or> n = 185)"

definition isalpha_cp :: "nat \<Rightarrow> bool" where
  "isalpha_cp n =
     ((65 \<le> n \<and> n \<le> 90) \<or> (97 \<le> n \<and> n \<le> 122) \<or> n = 170 \<or> n = 181 \<or> n = 186 \<or>
      (192 \<le> n \<and> n \<le> 214) \<or> (216 \<le> n \<and> n \<le> 246) \<or> (248 \<le> n \<and> n \<le> 255) \<or>
      n = 376 \<or> n = 924)"

definition isspace_char :: "char \<Rightarrow> bool" where
  "isspace_char c = isspace_cp (of_char c)"

text \<open>\<^verbatim>\<open>s.strip()\<close>: leading and trailing whitespace removed.\<close>

definition strip :: "string \<Rightarrow> string" where
  "strip s = rev (dropWhile isspace_char (rev (dropWhile isspace_char s)))"

definition lower_char :: "char \<Rightarrow> char" where
  "lower_char c =
     (let n = (of_char c :: nat) in
      if (65 \<le> n \<and> n \<le> 90) \<or> (192 \<le> n \<and> n \<le> 222 \<and> n \<noteq> 215)
      then char_of (n + 32) else c)"

definition lower :: "string \<Rightarrow> string" where
  "lower s = map lower_char s"

definition upper_cp :: "nat \<Rightarrow> ustr" where
  "upper_cp n =
     (if (97 \<le> n \<and> n \<le> 122) \<or> (224 \<le> n \<and> n \<le> 254 \<and> n \<noteq> 247) then [n - 32]
      else if n = 223 then [83, 83]
      else if n = 181 then [924]
      else if n = 255 then [376]
      else [n])"

definition upper :: "string \<Rightarrow> ustr" where
  "upper s = concat (map upper_cp (cps s))"

text \<open>\<^verbatim>\<open>x.isdigit()\<close> and \<^verbatim>\<open>x.isalpha()\<close> are false on the empty string.\<close>

definition isdigit :: "ustr \<Rightarrow> bool" where
  "isdigit x = (x \<noteq> [] \<and> list_all isdigit_cp x)"

definition isalpha :: "ustr \<Rightarrow> bool" where
  "isalpha x = (x \<noteq> [] \<and> list_all isalpha_cp x)"

definition dec_value :: "ustr \<Rightarrow> nat" where
  "dec_value x = foldl (\<lambda>a d. 10 * a + (d - 48)) 0 x"

text \<open>
  \<^verbatim>\<open>int(x)\<close>, as the converter calls it: always behind an \<^verbatim>\<open>isdigit\<close> test,
  so \<open>x\<close> holds no sign, blank or underscore. It raises \<^verbatim>\<open>ValueError\<close> unless
  every code point is a decimal digit. The interpreter's configurable cap on the
  length of a decimal literal is not modelled.
\<close>

definition int_of :: "ustr \<Rightarrow> error + int" where
  "int_of x = (if x \<noteq> [] \<and> list_all isdecimal_cp x then Inr (int (dec_value x)) else Inl ValueError)"

text \<open>\<^verbatim>\<open>ord(x)\<close> raises \<^verbatim>\<open>TypeError\<close> unless \<open>x\<close> has length one.\<close>

fun ord :: "ustr \<Rightarrow> error + int" where
  "ord [n] = Inr (int n)"
| "ord _ = Inl TypeError"

text \<open>\<^verbatim>\<open>chr(i)\<close> raises \<^verbatim>\<open>ValueError\<close> outside \<^verbatim>\<open>range(0x110000)\<close>.\<close>

definition chr :: "int \<Rightarrow> error + nat" where
  "chr i = (if 0 \<le> i \<and> i < 1114112 then Inr (nat i) else Inl ValueError)"

text \<open>\<^verbatim>\<open>s.split(',')\<close>: one more piece than there are commas.\<close>

fun split_comma :: "string \<Rightarrow> string list" where
  "split_comma [] = [[]]"
| "split_comma (c # cs) =
     (if c = CHR '','' then [] # split_comma cs
      else (case split_comma cs of
              [] \<Rightarrow> [[c]]
            | w # ws \<Rightarrow> (c # w) # ws))"

text \<open>\<^verbatim>\<open>str(n)\<close> for a natural number, as the f-strings format it.\<close>

fun str_nat :: "nat \<Rightarrow> string" where
  "str_nat n =
     (if n < 10 then [char_of (48 + n)]
      else str_nat (n div 10) @ [char_of (48 + n mod 10)])"

declare str_nat.simps [simp del]


section \<open>Errors as values\<close>

text \<open>An exception that nothing catches ends the computation: \<open>Inl\<close> is passed on.\<close>

definition bindE :: "error + 'a \<Rightarrow> ('a \<Rightarrow> error + 'b) \<Rightarrow> error + 'b" where
  "bindE m f = (case m of Inl e \<Rightarrow> Inl e | Inr x \<Rightarrow> f x)"

section \<open>The question parser\<close>

text \<open>
  A row as \<^verbatim>\<open>csv.DictReader\<close> yields it: a dictionary from column names to cell
  texts, given as an association list (lookup takes the first binding of a key). A row
  shorter than the header has \<^verbatim>\<open>None\<close> in the columns it lacks.
\<close>

datatype pyval = PyNone | PyStr string

type_synonym raw_record = "(string \<times> pyval) list"

datatype qtype = TF | MC | MA

record question_entry =
  qtype :: qtype
  question :: string
  explanation :: string
  choices :: "string list"
  correct_indices :: "int list"
  source :: string

text \<open>\<^verbatim>\<open>not row.get('Question') or not row['Question'].strip()\<close>\<close>

definition skip_row :: "raw_record \<Rightarrow> bool" where
  "skip_row row =
     (case map_of row ''Question'' of
        None \<Rightarrow> True
      | Some PyNone \<Rightarrow> True
      | Some (PyStr s) \<Rightarrow> s = [] \<or> strip s = [])"

definition question_text :: "raw_record \<Rightarrow> string" where
  "question_text row =
     (case map_of row ''Question'' of
        Some (PyStr s) \<Rightarrow> strip s
      | _ \<Rightarrow> [])"

text \<open>\<^verbatim>\<open>row.get(key, '').strip()\<close>: the default covers an absent key only; a
  \<^verbatim>\<open>None\<close> cell has no \<^verbatim>\<open>strip\<close>.\<close>

definition get_stripped :: "raw_record \<Rightarrow> string \<Rightarrow> error + string" where
  "get_stripped row key =
     (case map_of row key of
        None \<Rightarrow> Inr (strip [])
      | Some PyNone \<Rightarrow> Inl AttributeError
      | Some (PyStr s) \<Rightarrow> Inr (strip s))"

definition choice_key :: "nat \<Rightarrow> string" where
  "choice_key i = ''Choice '' @ str_nat i"

text \<open>\<^verbatim>\<open>choice_key in row and row[choice_key] and row[choice_key].strip()\<close>\<close>

definition has_choice :: "raw_record \<Rightarrow> nat \<Rightarrow> bool" where
  "has_choice row i =
     (case map_of row (choice_key i) of
        None \<Rightarrow> False
      | Some PyNone \<Rightarrow> False
      | Some (PyStr v) \<Rightarrow> v \<noteq> [] \<and> strip v \<noteq> [])"

definition choice_at :: "raw_record \<Rightarrow> nat \<Rightarrow> string" where
  "choice_at row i =
     (case map_of row (choice_key i) of
        Some (PyStr v) \<Rightarrow> strip v
      | _ \<Rightarrow> [])"

lemma dec_value_snoc: "dec_value (x @ [d]) = 10 * dec_value x + (d - 48)"
  by (simp add: dec_value_def)

lemma of_char_digit: "d < 10 \<Longrightarrow> (of_char (char_of (48 + d)) :: nat) = 48 + d"
  by simp

lemma dec_value_str_nat: "dec_value (cps (str_nat n)) = n"
proof (induction n rule: str_nat.induct)
  case (1 n)
  show ?case
  proof (cases "n < 10")
    case True
    then show ?thesis
      by (subst str_nat.simps) (simp add: cps_def dec_value_def)
  next
    case False
    have d: "n mod 10 < 10" by simp
    have "dec_value (cps (str_nat n)) = 10 * dec_value (cps (str_nat (n div 10))) + n mod 10"
      using False of_char_digit [OF d]
      by (subst str_nat.simps) (simp add: cps_def dec_value_snoc [unfolded cps_def])
    also have "\<dots> = 10 * (n div 10) + n mod 10"
      using 1 False by simp
    finally show ?thesis by simp
  qed
qed

lemma inj_choice_key: "inj choice_key"
proof (rule injI)
  fix a b
  assume "choice_key a = choice_key b"
  then have "str_nat a = str_nat b" by (simp add: choice_key_def)
  then have "dec_value (cps (str_nat a)) = dec_value (cps (str_nat b))"
    by (rule arg_cong)
  then show "a = b" by (simp only: dec_value_str_nat)
qed

lemma finite_choice_keys: "finite {j. i \<le> j \<and> choice_key j \<in> fst ` set row}"
proof -
  have "finite (choice_key -` (fst ` set row))"
    by (rule finite_vimageI [OF _ inj_choice_key]) simp
  moreover have "{j. i \<le> j \<and> choice_key j \<in> fst ` set row} \<subseteq> choice_key -` (fst ` set row)"
    by auto
  ultimately show ?thesis by (rule rev_finite_subset)
qed

lemma has_choice_key: "has_choice row i \<Longrightarrow> choice_key i \<in> fst ` set row"
proof -
  assume "has_choice row i"
  then obtain v where "map_of row (choice_key i) = Some v"
    by (auto simp: has_choice_def split: option.splits)
  then have "(choice_key i, v) \<in> set row" by (rule map_of_SomeD)
  then show ?thesis by force
qed

text \<open>
  The \<^verbatim>\<open>while True\<close> loop over \<^verbatim>\<open>Choice 1\<close>, \<^verbatim>\<open>Choice 2\<close>, ...: it stops at
  the first key that is absent or blank. It terminates because the keys of distinct
  numbers are distinct and the row has finitely many columns.
\<close>

function extract_choices :: "raw_record \<Rightarrow> nat \<Rightarrow> string list" where
  "extract_choices row i =
     (if has_choice row i then choice_at row i # extract_choices row (Suc i) else [])"
  by pat_completeness auto
termination
proof (relation "measure (\<lambda>(row, i). card {j. i \<le> j \<and> choice_key j \<in> fst ` set row})")
  show "wf (measure (\<lambda>(row, i). card {j. i \<le> j \<and> choice_key j \<in> fst ` set row}))"
    by simp
next
  fix row :: raw_record and i :: nat
  assume h: "has_choice row i"
  have "{j. Suc i \<le> j \<and> choice_key j \<in> fst ` set row} \<subset> {j. i \<le> j \<and> choice_key j \<in> fst ` set row}"
  proof
    show "{j. Suc i \<le> j \<and> choice_key j \<in> fst ` set row}
            \<subseteq> {j. i \<le> j \<and> choice_key j \<in> fst ` set row}"
      by auto
    have "i \<in> {j. i \<le> j \<and> choice_key j \<in> fst ` set row}"
      using has_choice_key [OF h] by simp
    moreover have "i \<notin> {j. Suc i \<le> j \<and> choice_key j \<in> fst ` set row}"
      by simp
    ultimately show "{j. Suc i \<le> j \<and> choice_key j \<in> fst ` set row}
            \<noteq> {j. i \<le> j \<and> choice_key j \<in> fst ` set row}"
      by metis
  qed
  then have "card {j. Suc i \<le> j \<and> choice_key j \<in> fst ` set row}
               < card {j. i \<le> j \<and> choice_key j \<in> fst ` set row}"
    by (rule psubset_card_mono [OF finite_choice_keys])
  then show "((row, Suc i), (row, i))
               \<in> measure (\<lambda>(row, i). card {j. i \<le> j \<and> choice_key j \<in> fst ` set row})"
    by simp
qed

declare extract_choices.simps [simp del]


text \<open>
  The loop over the comma-separated tokens (``1, 2, 3'' or ``A, B, C''): a token of
  digits is a 1-based number, a single letter counts from A, any other token adds
  nothing.
\<close>

fun multi_indices :: "string list \<Rightarrow> error + int list" where
  "multi_indices [] = Inr []"
| "multi_indices (x # xs) =
     (let x' = upper (strip x) in
      if isdigit x' then
        bindE (int_of x') (\<lambda>n. bindE (multi_indices xs) (\<lambda>r. Inr ((n - 1) # r)))
      else if length x' = 1 \<and> isalpha x' then
        bindE (ord x') (\<lambda>n. bindE (multi_indices xs) (\<lambda>r. Inr ((n - 65) # r)))
      else multi_indices xs)"

text \<open>The text-match loop: the index of the first choice equal to the answer, case
  ignored, counting from \<open>i\<close>.\<close>

fun text_match :: "string list \<Rightarrow> string \<Rightarrow> nat \<Rightarrow> int list" where
  "text_match [] correct_answer i = []"
| "text_match (choice # rest) correct_answer i =
     (if lower choice = lower correct_answer then [int i]
      else text_match rest correct_answer (Suc i))"

text \<open>
  The \<^verbatim>\<open>if\<close>/\<^verbatim>\<open>elif\<close> chain on the correct answer. It yields the question type
  (the comma branch overwrites it with \<open>MA\<close>) and the list \<^verbatim>\<open>correct_indices\<close>.
\<close>

definition resolve_answer :: "qtype \<Rightarrow> string \<Rightarrow> string list \<Rightarrow> error + (qtype \<times> int list)" where
  "resolve_answer question_type correct_answer chs =
     (if CHR '','' \<in> set correct_answer then
        bindE (multi_indices (split_comma correct_answer)) (\<lambda>r. Inr (MA, r))
      else if lower correct_answer = ''true'' \<or> lower correct_answer = ''false'' then
        Inr (question_type, [if lower correct_answer = ''true'' then 0 else 1])
      else if isdigit (cps correct_answer) then
        bindE (int_of (cps correct_answer)) (\<lambda>n. Inr (question_type, [n - 1]))
      else if length (strip correct_answer) = 1 \<and> isalpha (upper (strip correct_answer)) then
        bindE (ord (upper (strip correct_answer))) (\<lambda>n. Inr (question_type, [n - 65]))
      else Inr (question_type, text_match chs correct_answer 0))"

definition base_type :: "string list \<Rightarrow> qtype" where
  "base_type chs =
     (if length chs = 2 \<and> ''True'' \<in> set chs \<and> ''False'' \<in> set chs then TF else MC)"

text \<open>One pass of the loop over the rows: \<open>Inr None\<close> for a row that is skipped.\<close>

definition parse_row :: "raw_record \<Rightarrow> error + question_entry option" where
  "parse_row row =
     (if skip_row row then Inr None
      else
        bindE (get_stripped row ''Explanation'') (\<lambda>explanation.
        bindE (get_stripped row ''Source'') (\<lambda>source.
        let choices = extract_choices row 1 in
        bindE (get_stripped row ''Correct Answer'') (\<lambda>correct_answer.
        bindE (resolve_answer (base_type choices) correct_answer choices) (\<lambda>(question_type, correct_indices).
        Inr (Some \<lparr>qtype = question_type,
                    question = question_text row,
                    explanation = explanation,
                    choices = choices,
                    correct_indices = correct_indices,
                    source = source\<rparr>))))))"

text \<open>\<^verbatim>\<open>parse_csv_questions\<close>, from the rows on: the first row that raises ends the
  parse.\<close>

fun parse_csv_questions :: "raw_record list \<Rightarrow> error + question_entry list" where
  "parse_csv_questions [] = Inr []"
| "parse_csv_questions (row # rows) =
     bindE (parse_row row) (\<lambda>r.
     bindE (parse_csv_questions rows) (\<lambda>questions.
     Inr (case r of None \<Rightarrow> questions | Some q \<Rightarrow> q # questions)))"


section \<open>The table builder\<close>

subsection \<open>The Questions sheet\<close>

definition type_name :: "qtype \<Rightarrow> string" where
  "type_name t = (case t of TF \<Rightarrow> ''TF'' | MC \<Rightarrow> ''MC'' | MA \<Rightarrow> ''MA'')"

text \<open>\<^verbatim>\<open>q['source'] if q['source'] else section_id\<close>\<close>

definition q_section :: "string \<Rightarrow> question_entry \<Rightarrow> string" where
  "q_section section_id q = (if source q \<noteq> [] then source q else section_id)"

text \<open>\<^verbatim>\<open>'1' if i in q['correct_indices'] else ''\<close>\<close>

definition correct_mark :: "question_entry \<Rightarrow> nat \<Rightarrow> string" where
  "correct_mark q i = (if int i \<in> set (correct_indices q) then ''1'' else [])"

definition header_row :: "string list" where
  "header_row = [''Type'', ''Question'', ''Explanation'', ''Answer'', ''Correct'', ''Meta Key'', ''Meta Value'']"

definition blank_row :: "string list" where
  "blank_row = [[], [], [], [], [], [], []]"

definition first_row :: "string \<Rightarrow> question_entry \<Rightarrow> string \<Rightarrow> string list" where
  "first_row section_id q c =
     [type_name (qtype q), question q, explanation q, c, correct_mark q 0, ''ID'',
      q_section section_id q]"

definition answer_row :: "question_entry \<Rightarrow> nat \<Rightarrow> string list" where
  "answer_row q i = [[], [], [], choices q ! i, correct_mark q i, [], []]"

text \<open>The rows one question appends: nothing but the blank row when it has no choice.\<close>

definition question_rows :: "string \<Rightarrow> question_entry \<Rightarrow> string list list" where
  "question_rows section_id q =
     (case choices q of
        [] \<Rightarrow> []
      | c # _ \<Rightarrow> first_row section_id q c # map (answer_row q) [1..<length (choices q)])
     @ [blank_row]"

text \<open>\<^verbatim>\<open>rows\<close>: the header, then the rows of every question in order.\<close>

definition questions_sheet :: "question_entry list \<Rightarrow> string \<Rightarrow> string list list" where
  "questions_sheet questions section_id =
     header_row # concat (map (question_rows section_id) questions)"

subsection \<open>The Debug sheet\<close>

datatype cell = Txt ustr | Num nat

definition str_cell :: "string \<Rightarrow> cell" where
  "str_cell s = Txt (cps s)"

text \<open>
  \<^verbatim>\<open>section_counts\<close>: a dictionary keeps its keys in the order of their first
  insertion, so it is an association list with distinct keys, and
  \<^verbatim>\<open>section_counts[k] = section_counts.get(k, 0) + 1\<close> is:
\<close>

fun dict_incr :: "(string \<times> nat) list \<Rightarrow> string \<Rightarrow> (string \<times> nat) list" where
  "dict_incr [] k = [(k, 1)]"
| "dict_incr ((k', c) # d) k =
     (if k' = k then (k', c + 1) # d else (k', c) # dict_incr d k)"

definition section_counts :: "question_entry list \<Rightarrow> string \<Rightarrow> (string \<times> nat) list" where
  "section_counts questions section_id =
     foldl (\<lambda>d q. dict_incr d (q_section section_id q)) [] questions"

text \<open>\<^verbatim>\<open>re.findall(r'\d+', section)\<close>: the maximal runs of decimal digits, left to
  right; \<open>cur\<close> is the run being read.\<close>

fun digit_runs :: "string \<Rightarrow> string \<Rightarrow> string list" where
  "digit_runs cur [] = (if cur = [] then [] else [cur])"
| "digit_runs cur (c # cs) =
     (if isdecimal_cp (of_char c) then digit_runs (cur @ [c]) cs
      else if cur = [] then digit_runs [] cs
      else cur # digit_runs [] cs)"

text \<open>
  The keys of \<^verbatim>\<open>natural_sort_key\<close>: a tuple of two or more integers, or the
  one-element tuple of the tag itself. (\<^verbatim>\<open>int\<close> cannot fail on a run of decimal
  digits.)
\<close>

datatype sort_key = IntKey "int list" | StrKey string

definition natural_sort_key :: "string \<times> nat \<Rightarrow> sort_key" where
  "natural_sort_key item =
     (let section = fst item; parts = digit_runs [] section in
      if length parts \<ge> 2 then IntKey (map (\<lambda>p. int (dec_value (cps p))) parts)
      else StrKey section)"

fun ints_lt :: "int list \<Rightarrow> int list \<Rightarrow> bool" where
  "ints_lt [] [] = False"
| "ints_lt [] (y # ys) = True"
| "ints_lt (x # xs) [] = False"
| "ints_lt (x # xs) (y # ys) = (if x = y then ints_lt xs ys else x < y)"

fun str_lt :: "string \<Rightarrow> string \<Rightarrow> bool" where
  "str_lt [] [] = False"
| "str_lt [] (y # ys) = True"
| "str_lt (x # xs) [] = False"
| "str_lt (x # xs) (y # ys) = (if x = y then str_lt xs ys else (of_char x :: nat) < of_char y)"

text \<open>
  \<^verbatim>\<open>a < b\<close> on two keys. Tuples compare by their first differing elements; an
  integer and a string differ and have no order, so a tuple of integers against a
  tuple of a string raises \<^verbatim>\<open>TypeError\<close>.
\<close>

fun key_lt :: "sort_key \<Rightarrow> sort_key \<Rightarrow> error + bool" where
  "key_lt (IntKey a) (IntKey b) = Inr (ints_lt a b)"
| "key_lt (StrKey a) (StrKey b) = Inr (str_lt a b)"
| "key_lt _ _ = Inl TypeError"

text \<open>
  \<^verbatim>\<open>sorted(items, key=natural_sort_key)\<close>. Python's sort is stable, asks only
  \<^verbatim>\<open><\<close> of the keys and passes on what a comparison raises. It is modelled by
  the insertion sort that places each item, in turn, before the first item already
  placed whose key is greater. (No comparison sort can order a list without comparing
  every two neighbours of its result, so all of them meet a numeric key with a string
  key when the list has both.)
\<close>

fun insert_item :: "string \<times> nat \<Rightarrow> (string \<times> nat) list \<Rightarrow> error + (string \<times> nat) list" where
  "insert_item x [] = Inr [x]"
| "insert_item x (y # ys) =
     bindE (key_lt (natural_sort_key x) (natural_sort_key y)) (\<lambda>b.
       if b then Inr (x # y # ys)
       else bindE (insert_item x ys) (\<lambda>r. Inr (y # r)))"

fun sorted_from :: "(string \<times> nat) list \<Rightarrow> (string \<times> nat) list \<Rightarrow> error + (string \<times> nat) list" where
  "sorted_from acc [] = Inr acc"
| "sorted_from acc (x # xs) = bindE (insert_item x acc) (\<lambda>acc'. sorted_from acc' xs)"

definition py_sorted :: "(string \<times> nat) list \<Rightarrow> error + (string \<times> nat) list" where
  "py_sorted items = sorted_from [] items"

text \<open>The Track Details block, before it is formatted.\<close>

definition track_details :: "question_entry list \<Rightarrow> string \<Rightarrow> error + (string \<times> nat) list" where
  "track_details questions section_id = py_sorted (section_counts questions section_id)"

definition track_row :: "string \<times> nat \<Rightarrow> cell list" where
  "track_row item = [str_cell (''  '' @ fst item), str_cell (str_nat (snd item) @ '' questions'')]"

definition summary_rows :: "question_entry list \<Rightarrow> string \<Rightarrow> cell list list" where
  "summary_rows questions section_id =
     [[str_cell ''Metric'', str_cell ''Value''],
      [str_cell ''Total Questions Parsed'', Num (length questions)],
      [str_cell ''Total Tracks/Sections'', Num (length (section_counts questions section_id))],
      [str_cell ''Keep Answer Prefixes'', str_cell ''No''],
      [str_cell ''Parsing Errors'', Num 0],
      [str_cell []],
      [str_cell ''Track Details'']]"

definition errors_rows :: "cell list list" where
  "errors_rows =
     [[str_cell []],
      [str_cell ''Parsing Errors:''],
      [str_cell ''  None detected''],
      [str_cell []],
      [str_cell ''Track'', str_cell ''Q#'', str_cell ''Question Preview'', str_cell ''Correct Answer'', str_cell ''Page Ref'',
       str_cell ''Has Explanation'']]"

text \<open>\<^verbatim>\<open>[chr(65 + idx) for idx in q['correct_indices']]\<close>\<close>

fun correct_letters :: "int list \<Rightarrow> error + nat list" where
  "correct_letters [] = Inr []"
| "correct_letters (idx # rest) =
     bindE (chr (65 + idx)) (\<lambda>c. bindE (correct_letters rest) (\<lambda>cs. Inr (c # cs)))"

text \<open>\<^verbatim>\<open>', '.join(letters)\<close>, each letter one code point.\<close>

fun join_letters :: "nat list \<Rightarrow> ustr" where
  "join_letters [] = []"
| "join_letters [c] = [c]"
| "join_letters (c # d # rest) = c # 44 # 32 # join_letters (d # rest)"

text \<open>The Correct Answer cell: the letters in ascending order of their code points.\<close>

definition correct_letter :: "question_entry \<Rightarrow> error + ustr" where
  "correct_letter q =
     (if correct_indices q \<noteq> [] then
        bindE (correct_letters (correct_indices q)) (\<lambda>letters. Inr (join_letters (sort letters)))
      else Inr [])"

text \<open>\<^verbatim>\<open>(q['question'][:47] + '...') if len(q['question']) > 50 else q['question']\<close>\<close>

definition question_preview :: "string \<Rightarrow> string" where
  "question_preview text = (if length text > 50 then take 47 text @ ''...'' else text)"

definition has_explanation :: "question_entry \<Rightarrow> string" where
  "has_explanation q = (if strip (explanation q) \<noteq> [] then ''Yes'' else ''No'')"

definition audit_row :: "string \<Rightarrow> nat \<Rightarrow> question_entry \<Rightarrow> error + cell list" where
  "audit_row section_id i q =
     bindE (correct_letter q) (\<lambda>letter.
       Inr [str_cell (q_section section_id q), str_cell (str_nat i), str_cell (question_preview (question q)),
            Txt letter, str_cell [], str_cell (has_explanation q)])"

text \<open>\<^verbatim>\<open>for i, q in enumerate(questions, 1)\<close>, from number \<open>i\<close> on.\<close>

fun audit_rows :: "string \<Rightarrow> nat \<Rightarrow> question_entry list \<Rightarrow> error + cell list list" where
  "audit_rows section_id i [] = Inr []"
| "audit_rows section_id i (q # qs) =
     bindE (audit_row section_id i q) (\<lambda>r.
     bindE (audit_rows section_id (Suc i) qs) (\<lambda>rs. Inr (r # rs)))"

definition debug_sheet :: "question_entry list \<Rightarrow> string \<Rightarrow> error + cell list list" where
  "debug_sheet questions section_id =
     bindE (track_details questions section_id) (\<lambda>items.
     bindE (audit_rows section_id 1 questions) (\<lambda>audit.
     Inr (summary_rows questions section_id @ map track_row items @ errors_rows @ audit)))"

text \<open>
  \<^verbatim>\<open>create_xlsx_output\<close>: the two sheets handed to the spreadsheet writer, and the
  number of questions it returns. An exception while the Debug rows are built leaves
  no file.
\<close>

definition create_xlsx_output ::
  "question_entry list \<Rightarrow> string \<Rightarrow> error + (string list list \<times> cell list list \<times> nat)" where
  "create_xlsx_output questions section_id =
     (let rows = questions_sheet questions section_id in
      bindE (debug_sheet questions section_id) (\<lambda>debug_rows.
      Inr (rows, debug_rows, length questions)))"

section \<open>The run\<close>

text \<open>
  \<^verbatim>\<open>main\<close> once the input file is open: \<open>rows\<close> are the rows read from it and
  \<open>filename_id\<close> is the section ID that \<^verbatim>\<open>main\<close> derives from the file name,
  used when the first question has no source. The run ends in \<^verbatim>\<open>sys.exit(1)\<close>,
  in an exception nothing catches, or with the two sheets written.
\<close>

datatype run_result =
  SysExit nat
| Uncaught error
| Converted "string list list" "cell list list"

definition main :: "raw_record list \<Rightarrow> string \<Rightarrow> run_result" where
  "main rows filename_id =
     (case parse_csv_questions rows of
        Inl e \<Rightarrow> Uncaught e
      | Inr questions \<Rightarrow>
          (case questions of
             [] \<Rightarrow> SysExit 1
           | q0 # _ \<Rightarrow>
               (let section_id = (if source q0 \<noteq> [] then strip (source q0) else filename_id) in
                case create_xlsx_output questions section_id of
                  Inl e \<Rightarrow> Uncaught e
                | Inr (sheet, debug, question_count) \<Rightarrow> Converted sheet debug)))"


section \<open>Notions used in the statements\<close>

text \<open>A source tag has a numeric key when it holds two or more runs of digits.\<close>

definition has_numeric_key :: "string \<times> nat \<Rightarrow> bool" where
  "has_numeric_key item = (2 \<le> length (digit_runs [] (fst item)))"

text \<open>
  The rule for one comma-separated token in the words of the specification: digits give
  the number less one, one letter gives its place counted from A, anything else gives
  nothing. It is compared below with the loop \<open>multi_indices\<close> of the program.
\<close>

definition spec_token_indices :: "string \<Rightarrow> int list" where
  "spec_token_indices tok =
     (let x = upper (strip tok) in
      if x \<noteq> [] \<and> list_all isdecimal_cp x then [int (dec_value x) - 1]
      else if length x = 1 \<and> isalpha x then [int (hd x) - 65]
      else [])"

text \<open>A token whose digits, if it consists of digits, are all decimal ones.\<close>

definition decimal_or_no_digits :: "string \<Rightarrow> bool" where
  "decimal_or_no_digits tok =
     (if isdigit (upper (strip tok)) then list_all isdecimal_cp (upper (strip tok)) else True)"

text \<open>
  The two ways in which \<^verbatim>\<open>create_xlsx_output\<close> can raise: source tags with a numeric
  key beside tags with a string key, and a correct index that \<^verbatim>\<open>chr\<close> cannot turn
  into a character.
\<close>

definition mixed_tags :: "question_entry list \<Rightarrow> string \<Rightarrow> bool" where
  "mixed_tags questions section_id =
     (list_ex (\<lambda>q. 2 \<le> length (digit_runs [] (q_section section_id q))) questions
      \<and> list_ex (\<lambda>q. length (digit_runs [] (q_section section_id q)) < 2) questions)"

definition letter_out_of_range :: "question_entry list \<Rightarrow> bool" where
  "letter_out_of_range questions =
     list_ex (\<lambda>q. list_ex (\<lambda>idx. 65 + idx < 0 \<or> 1114112 \<le> 65 + idx) (correct_indices q)) questions"

text \<open>Three questions for the examples: a numbered source tag, a tag without digits, and
  no tag at all.\<close>

definition numbered_question :: question_entry where
  "numbered_question =
     \<lparr>qtype = MC, question = ''Q1'', explanation = [], choices = [''a'', ''b''],
      correct_indices = [0], source = ''1.2''\<rparr>"

definition unnumbered_question :: question_entry where
  "unnumbered_question =
     \<lparr>qtype = MC, question = ''Q2'', explanation = [], choices = [''a'', ''b''],
      correct_indices = [1], source = ''Intro''\<rparr>"

definition fallback_question :: question_entry where
  "fallback_question =
     \<lparr>qtype = MC, question = ''Q3'', explanation = [], choices = [''a'', ''b''],
      correct_indices = [1], source = []\<rparr>"

text \<open>A row whose correct answer is the number 1114048, and the question it parses to.\<close>

definition huge_answer_row :: raw_record where
  "huge_answer_row =
     [(''Question'', PyStr ''Which?''), (''Choice 1'', PyStr ''a''), (''Choice 2'', PyStr ''b''),
      (''Choice 3'', PyStr ''c''), (''Choice 4'', PyStr ''d''),
      (''Correct Answer'', PyStr ''1114048'')]"

definition huge_index_question :: question_entry where
  "huge_index_question =
     \<lparr>qtype = MC, question = ''Which?'', explanation = [],
      choices = [''a'', ''b'', ''c'', ''d''], correct_indices = [1114047], source = []\<rparr>"


section \<open>Properties of the parser\<close>

lemma parse_row_SomeD:
  assumes "parse_row row = Inr (Some q)"
  shows "\<exists>correct_answer.
           get_stripped row ''Correct Answer'' = Inr correct_answer
         \<and> choices q = extract_choices row 1
         \<and> resolve_answer (base_type (choices q)) correct_answer (choices q)
             = Inr (qtype q, correct_indices q)"
  using assms
  by (auto simp: parse_row_def bindE_def Let_def split: if_splits sum.splits prod.splits)

lemma resolve_answer_type:
  "resolve_answer t correct_answer chs = Inr (t', idxs) \<Longrightarrow>
     t' = (if CHR '','' \<in> set correct_answer then MA else t)"
  by (auto simp: resolve_answer_def bindE_def split: if_splits sum.splits)

lemma text_match_length: "length (text_match chs correct_answer i) \<le> 1"
  by (induction chs correct_answer i rule: text_match.induct) auto

lemma resolve_answer_single:
  "CHR '','' \<notin> set correct_answer \<Longrightarrow> resolve_answer t correct_answer chs = Inr (t', idxs) \<Longrightarrow>
     length idxs \<le> 1"
  using text_match_length [of chs correct_answer 0]
  by (auto simp: resolve_answer_def bindE_def split: if_splits sum.splits)

lemma base_type_TF:
  "(base_type chs = TF) = (length chs = 2 \<and> set chs = {''True'', ''False''})"
proof -
  have "length chs = 2 \<Longrightarrow> ''True'' \<in> set chs \<Longrightarrow> ''False'' \<in> set chs \<Longrightarrow>
          set chs = {''True'', ''False''}"
  proof -
    assume l: "length chs = 2" and t: "''True'' \<in> set chs" and f: "''False'' \<in> set chs"
    from l obtain a b where ab: "chs = [a, b]"
      by (cases chs; cases "tl chs") auto
    with t f show ?thesis by auto
  qed
  then show ?thesis by (auto simp: base_type_def)
qed

lemma in_dropWhile: "x \<in> set xs \<Longrightarrow> \<not> P x \<Longrightarrow> x \<in> set (dropWhile P xs)"
  by (induction xs) auto

lemma strip_keeps_comma: "(CHR '','' \<in> set (strip s)) = (CHR '','' \<in> set s)"
proof
  assume "CHR '','' \<in> set (strip s)"
  then show "CHR '','' \<in> set s"
    by (auto simp: strip_def dest!: set_dropWhileD)
next
  have ns: "\<not> isspace_char CHR '',''"
    by (simp add: isspace_char_def isspace_cp_def)
  assume "CHR '','' \<in> set s"
  then have "CHR '','' \<in> set (rev (dropWhile isspace_char s))"
    using ns by (simp add: in_dropWhile)
  then have "CHR '','' \<in> set (dropWhile isspace_char (rev (dropWhile isspace_char s)))"
    using ns by (rule in_dropWhile)
  then show "CHR '','' \<in> set (strip s)" by (simp add: strip_def)
qed

text \<open>
  The loop over the tokens agrees with the rule of the specification on every answer
  whose tokens of digits are decimal.
\<close>

lemma ord_single: "length x = 1 \<Longrightarrow> ord x = Inr (int (hd x))"
  by (cases x; cases "tl x") auto

lemma decimal_isdigit: "x \<noteq> [] \<Longrightarrow> list_all isdecimal_cp x \<Longrightarrow> isdigit x"
  by (auto simp: isdigit_def isdigit_cp_def list_all_iff)

lemma multi_indices_step:
  assumes "decimal_or_no_digits t"
  shows "multi_indices (t # ts) = bindE (multi_indices ts) (\<lambda>r. Inr (spec_token_indices t @ r))"
proof -
  let ?x = "upper (strip t)"
  from assms have d: "isdigit ?x \<Longrightarrow> list_all isdecimal_cp ?x"
    by (simp add: decimal_or_no_digits_def)
  show ?thesis
  proof (cases "isdigit ?x")
    case True
    then have "?x \<noteq> []" by (simp add: isdigit_def)
    with True d show ?thesis
      by (simp add: bindE_def int_of_def spec_token_indices_def Let_def)
  next
    case False
    then have nd: "\<not> (?x \<noteq> [] \<and> list_all isdecimal_cp ?x)"
      using decimal_isdigit by blast
    show ?thesis
    proof (cases "length ?x = 1 \<and> isalpha ?x")
      case True
      then show ?thesis using False nd
        by (auto simp: bindE_def ord_single spec_token_indices_def Let_def split: sum.splits)
    next
      case False
      then show ?thesis using \<open>\<not> isdigit ?x\<close> nd
        by (auto simp: bindE_def spec_token_indices_def Let_def split: sum.splits)
    qed
  qed
qed

lemma multi_indices_spec:
  "list_all decimal_or_no_digits toks \<Longrightarrow>
     multi_indices toks = Inr (concat (map spec_token_indices toks))"
proof (induction toks)
  case Nil
  then show ?case by simp
next
  case (Cons t ts)
  then have ih: "multi_indices ts = Inr (concat (map spec_token_indices ts))"
    and t: "decimal_or_no_digits t" by simp_all
  show ?case
    by (simp only: multi_indices_step [OF t] ih bindE_def sum.case list.map concat.simps)
qed

text \<open>Whenever the loop returns, it returns what the rule gives, token by token.\<close>

lemma multi_indices_Inr:
  "multi_indices toks = Inr r \<Longrightarrow> r = concat (map spec_token_indices toks)"
proof (induction toks arbitrary: r)
  case Nil
  then show ?case by simp
next
  case (Cons t ts)
  let ?x = "upper (strip t)"
  show ?case
  proof (cases "isdigit ?x")
    case True
    with Cons.prems obtain n r' where
      n: "int_of ?x = Inr n" and r': "multi_indices ts = Inr r'" and r: "r = (n - 1) # r'"
      by (auto simp: bindE_def Let_def split: sum.splits)
    from n have "?x \<noteq> [] \<and> list_all isdecimal_cp ?x" and "n = int (dec_value ?x)"
      by (auto simp: int_of_def split: if_splits)
    then have "spec_token_indices t = [n - 1]"
      by (simp add: spec_token_indices_def Let_def)
    with Cons.IH [OF r'] r show ?thesis by simp
  next
    case False
    then have nd: "\<not> (?x \<noteq> [] \<and> list_all isdecimal_cp ?x)"
      using decimal_isdigit by blast
    show ?thesis
    proof (cases "length ?x = 1 \<and> isalpha ?x")
      case True
      with Cons.prems \<open>\<not> isdigit ?x\<close> obtain r' where
        r': "multi_indices ts = Inr r'" and r: "r = (int (hd ?x) - 65) # r'"
        by (auto simp: bindE_def Let_def ord_single split: sum.splits)
      from True nd have "spec_token_indices t = [int (hd ?x) - 65]"
        by (auto simp: spec_token_indices_def Let_def)
      with Cons.IH [OF r'] r show ?thesis by simp
    next
      case False
      with Cons.prems \<open>\<not> isdigit ?x\<close> have r': "multi_indices ts = Inr r"
        by (auto simp: Let_def)
      from False nd have "spec_token_indices t = []"
        by (auto simp: spec_token_indices_def Let_def)
      with Cons.IH [OF r'] show ?thesis by simp
    qed
  qed
qed

lemma resolve_answer_multi:
  "CHR '','' \<in> set correct_answer \<Longrightarrow> resolve_answer t correct_answer chs = Inr (t', idxs) \<Longrightarrow>
     idxs = concat (map spec_token_indices (split_comma correct_answer))"
  by (auto simp: resolve_answer_def bindE_def split: sum.splits dest: multi_indices_Inr)

text \<open>
  C2, as the program has it. For every row that yields a question: the type is \<open>MA\<close>
  whenever the trimmed correct-answer field holds a comma, also when the choices are
  True and False; without a comma it is \<open>TF\<close> exactly when there are exactly two choices
  and their values are the set of True and False, and \<open>MC\<close> otherwise. (Trimming neither
  adds nor removes a comma: \<open>strip_keeps_comma\<close>.)
\<close>

theorem parse_row_type:
  assumes "parse_row row = Inr (Some q)"
    and "get_stripped row ''Correct Answer'' = Inr correct_answer"
  shows "qtype q =
           (if CHR '','' \<in> set correct_answer then MA
            else if length (choices q) = 2 \<and> set (choices q) = {''True'', ''False''} then TF
            else MC)"
proof -
  from parse_row_SomeD [OF assms(1)] assms(2)
  have "resolve_answer (base_type (choices q)) correct_answer (choices q)
          = Inr (qtype q, correct_indices q)"
    by auto
  then have "qtype q = (if CHR '','' \<in> set correct_answer then MA else base_type (choices q))"
    by (rule resolve_answer_type)
  moreover have "base_type (choices q) =
      (if length (choices q) = 2 \<and> set (choices q) = {''True'', ''False''} then TF else MC)"
    using base_type_TF [of "choices q"] by (auto simp: base_type_def)
  ultimately show ?thesis by simp
qed

text \<open>C2 as stated fails: a True/False row whose correct answer is ``1, 2'' gets type
  \<open>MA\<close>, not \<open>TF\<close>.\<close>

theorem tf_with_comma_is_MA:
  "parse_row [(''Question'', PyStr ''Is it so?''), (''Choice 1'', PyStr ''True''),
              (''Choice 2'', PyStr ''False''), (''Correct Answer'', PyStr ''1, 2'')]
     = Inr (Some \<lparr>qtype = MA, question = ''Is it so?'', explanation = [],
                   choices = [''True'', ''False''], correct_indices = [0, 1], source = []\<rparr>)"
  by code_simp

text \<open>A True/False row with the answer ``True'' has type \<open>TF\<close>.\<close>

theorem parse_row_type_witness:
  "parse_row [(''Question'', PyStr ''Is it so?''), (''Choice 1'', PyStr ''True''),
              (''Choice 2'', PyStr ''False''), (''Correct Answer'', PyStr ''True'')]
     = Inr (Some \<lparr>qtype = TF, question = ''Is it so?'', explanation = [],
                   choices = [''True'', ''False''], correct_indices = [0], source = []\<rparr>)
   \<and> get_stripped [(''Question'', PyStr ''Is it so?''), (''Choice 1'', PyStr ''True''),
              (''Choice 2'', PyStr ''False''), (''Correct Answer'', PyStr ''True'')]
         ''Correct Answer'' = Inr ''True''
   \<and> qtype \<lparr>qtype = TF, question = ''Is it so?'', explanation = [],
             choices = [''True'', ''False''], correct_indices = [0], source = []\<rparr> = TF"
proof -
  have p: "parse_row [(''Question'', PyStr ''Is it so?''), (''Choice 1'', PyStr ''True''),
              (''Choice 2'', PyStr ''False''), (''Correct Answer'', PyStr ''True'')]
     = Inr (Some \<lparr>qtype = TF, question = ''Is it so?'', explanation = [],
                   choices = [''True'', ''False''], correct_indices = [0], source = []\<rparr>)"
    by code_simp
  have g: "get_stripped [(''Question'', PyStr ''Is it so?''), (''Choice 1'', PyStr ''True''),
              (''Choice 2'', PyStr ''False''), (''Correct Answer'', PyStr ''True'')]
         ''Correct Answer'' = Inr ''True''"
    by code_simp
  from parse_row_type [OF p g] p g show ?thesis by simp
qed

text \<open>
  C3, as the program has it. \<^verbatim>\<open>correct_indices\<close> is a list. For every row that yields
  a question: when the trimmed correct-answer field holds no comma the list has at most
  one element and so no repeated value; when it holds a comma the list has one entry for
  each token that resolves, in the order of the tokens, so tokens that resolve to the
  same index repeat it.
\<close>

theorem correct_indices_list:
  assumes "parse_row row = Inr (Some q)"
    and "get_stripped row ''Correct Answer'' = Inr correct_answer"
  shows "if CHR '','' \<in> set correct_answer
         then correct_indices q = concat (map spec_token_indices (split_comma correct_answer))
         else length (correct_indices q) \<le> 1 \<and> distinct (correct_indices q)"
proof -
  from parse_row_SomeD [OF assms(1)] assms(2)
  have r: "resolve_answer (base_type (choices q)) correct_answer (choices q)
          = Inr (qtype q, correct_indices q)"
    by auto
  show ?thesis
  proof (cases "CHR '','' \<in> set correct_answer")
    case True
    from resolve_answer_multi [OF True r] True show ?thesis by simp
  next
    case False
    from resolve_answer_single [OF False r]
    have l: "length (correct_indices q) \<le> 1" .
    then have "distinct (correct_indices q)"
      by (cases "correct_indices q"; cases "tl (correct_indices q)") auto
    with l False show ?thesis by simp
  qed
qed

text \<open>C3 as stated fails: the answer ``1, A'' gives the list \<open>[0, 0]\<close>.\<close>

theorem repeated_index_kept:
  "parse_row [(''Question'', PyStr ''Which?''), (''Choice 1'', PyStr ''a''),
              (''Choice 2'', PyStr ''b''), (''Correct Answer'', PyStr ''1, A'')]
     = Inr (Some \<lparr>qtype = MA, question = ''Which?'', explanation = [],
                   choices = [''a'', ''b''], correct_indices = [0, 0], source = []\<rparr>)
   \<and> \<not> distinct [0 :: int, 0]"
  by code_simp

text \<open>The answer ``C'' with three choices gives the list \<open>[2]\<close>.\<close>

theorem correct_indices_list_witness:
  "parse_row [(''Question'', PyStr ''Which?''), (''Choice 1'', PyStr ''a''),
              (''Choice 2'', PyStr ''b''), (''Choice 3'', PyStr ''c''),
              (''Correct Answer'', PyStr ''C'')]
     = Inr (Some \<lparr>qtype = MC, question = ''Which?'', explanation = [],
                   choices = [''a'', ''b'', ''c''], correct_indices = [2], source = []\<rparr>)
   \<and> distinct (correct_indices \<lparr>qtype = MC, question = ''Which?'', explanation = [],
                   choices = [''a'', ''b'', ''c''], correct_indices = [2], source = []\<rparr>)"
proof -
  have p: "parse_row [(''Question'', PyStr ''Which?''), (''Choice 1'', PyStr ''a''),
              (''Choice 2'', PyStr ''b''), (''Choice 3'', PyStr ''c''),
              (''Correct Answer'', PyStr ''C'')]
     = Inr (Some \<lparr>qtype = MC, question = ''Which?'', explanation = [],
                   choices = [''a'', ''b'', ''c''], correct_indices = [2], source = []\<rparr>)"
    by code_simp
  have g: "get_stripped [(''Question'', PyStr ''Which?''), (''Choice 1'', PyStr ''a''),
              (''Choice 2'', PyStr ''b''), (''Choice 3'', PyStr ''c''),
              (''Correct Answer'', PyStr ''C'')] ''Correct Answer'' = Inr ''C''"
    by code_simp
  from correct_indices_list [OF p g] p show ?thesis by simp
qed

text \<open>
  C4. The specification wants a token that is neither a number nor a single letter
  dropped, and no error raised. A token of superscript digits passes \<^verbatim>\<open>isdigit\<close> and
  is handed to \<^verbatim>\<open>int\<close>, which raises \<^verbatim>\<open>ValueError\<close>: the answer whose
  tokens are 1 and the superscript two (U+00B2) ends the parse.
\<close>

theorem superscript_token_raises:
  "parse_row [(''Question'', PyStr ''Which?''), (''Choice 1'', PyStr ''a''),
              (''Choice 2'', PyStr ''b''), (''Choice 3'', PyStr ''c''), (''Choice 4'', PyStr ''d''),
              (''Correct Answer'', PyStr (''1, '' @ [CHR 0xB2]))]
     = Inl ValueError"
  by code_simp

text \<open>The answer ``1, 3'' with four choices gives type \<open>MA\<close> and the indices 0 and 2.\<close>

lemma multi_answer_example:
  "parse_row [(''Question'', PyStr ''Which?''), (''Choice 1'', PyStr ''a''),
              (''Choice 2'', PyStr ''b''), (''Choice 3'', PyStr ''c''), (''Choice 4'', PyStr ''d''),
              (''Correct Answer'', PyStr ''1, 3'')]
     = Inr (Some \<lparr>qtype = MA, question = ''Which?'', explanation = [],
                   choices = [''a'', ''b'', ''c'', ''d''], correct_indices = [0, 2], source = []\<rparr>)"
  by code_simp

section \<open>Properties of the Questions sheet\<close>

lemma question_rows_length: "length (question_rows section_id q) = length (choices q) + 1"
  by (cases "choices q") (simp_all add: question_rows_def del: upt_Suc)

lemma questions_body_length:
  "length (concat (map (question_rows section_id) questions)) =
     length questions + sum_list (map (\<lambda>q. length (choices q)) questions)"
  by (induction questions) (simp_all add: question_rows_length)

lemma answer_cells:
  "map (\<lambda>r. r ! 3) (map (answer_row q) [1..<length (choices q)]) = tl (choices q)"
  by (rule nth_equalityI) (simp_all add: answer_row_def nth_tl)

lemma question_rows_answers:
  "map (\<lambda>r. r ! 3) (butlast (question_rows section_id q)) = choices q"
proof (cases "choices q")
  case Nil
  then show ?thesis by (simp add: question_rows_def)
next
  case (Cons c cs)
  then show ?thesis using answer_cells [of q]
    by (simp add: question_rows_def first_row_def del: upt_Suc)
qed

lemma question_rows_explicit:
  "question_rows section_id q =
     map (\<lambda>i. if i = 0
               then [case qtype q of TF \<Rightarrow> ''TF'' | MC \<Rightarrow> ''MC'' | MA \<Rightarrow> ''MA'',
                     question q, explanation q, choices q ! 0,
                     if 0 \<in> set (correct_indices q) then ''1'' else [], ''ID'',
                     if source q = [] then section_id else source q]
               else [[], [], [], choices q ! i,
                     if int i \<in> set (correct_indices q) then ''1'' else [], [], []])
         [0..<length (choices q)]
     @ [[[], [], [], [], [], [], []]]"
proof (cases "choices q")
  case Nil
  then show ?thesis by (simp add: question_rows_def blank_row_def)
next
  case (Cons c cs)
  have u: "[0..<length (choices q)] = 0 # [1..<length (choices q)]"
    using Cons by (subst upt_conv_Cons) simp_all
  have f: "first_row section_id q c
        = [case qtype q of TF \<Rightarrow> ''TF'' | MC \<Rightarrow> ''MC'' | MA \<Rightarrow> ''MA'',
                     question q, explanation q, choices q ! 0,
                     if 0 \<in> set (correct_indices q) then ''1'' else [], ''ID'',
                     if source q = [] then section_id else source q]"
    using Cons by (simp add: first_row_def type_name_def correct_mark_def q_section_def)
  have qr: "question_rows section_id q
        = (first_row section_id q c # map (answer_row q) [1..<length (choices q)]) @ [blank_row]"
    by (simp only: question_rows_def Cons list.case)
  show ?thesis
    by (simp add: qr u f blank_row_def answer_row_def correct_mark_def del: upt_Suc)
qed

section \<open>Properties of the Debug sheet\<close>

subsection \<open>The natural sort and the section counts\<close>

lemma key_lt_same:
  "has_numeric_key x = has_numeric_key y \<Longrightarrow>
     \<exists>b. key_lt (natural_sort_key x) (natural_sort_key y) = Inr b"
  by (auto simp: has_numeric_key_def natural_sort_key_def Let_def)

lemma key_lt_mixed:
  "has_numeric_key x \<noteq> has_numeric_key y \<Longrightarrow>
     key_lt (natural_sort_key x) (natural_sort_key y) = Inl TypeError"
  by (auto simp: has_numeric_key_def natural_sort_key_def Let_def)

lemma insert_item_mset:
  "insert_item x acc = Inr r \<Longrightarrow> mset r = add_mset x (mset acc)"
proof (induction acc arbitrary: r)
  case Nil
  then show ?case by simp
next
  case (Cons y ys)
  then show ?case
    by (auto simp: bindE_def split: sum.splits if_splits)
qed

lemma insert_item_same:
  "\<forall>y\<in>set acc. has_numeric_key y = has_numeric_key x \<Longrightarrow> \<exists>r. insert_item x acc = Inr r"
proof (induction acc)
  case Nil
  then show ?case by simp
next
  case (Cons y ys)
  from Cons.prems have "has_numeric_key x = has_numeric_key y" by simp
  then obtain b where b: "key_lt (natural_sort_key x) (natural_sort_key y) = Inr b"
    using key_lt_same by blast
  from Cons obtain r where "insert_item x ys = Inr r" by auto
  with b show ?case by (simp add: bindE_def)
qed

lemma insert_item_mixed:
  "has_numeric_key x \<noteq> has_numeric_key y \<Longrightarrow> insert_item x (y # ys) = Inl TypeError"
  by (simp add: key_lt_mixed bindE_def)

lemma sorted_from_mixed:
  "acc \<noteq> [] \<Longrightarrow> \<forall>y\<in>set acc. has_numeric_key y = k \<Longrightarrow>
   \<exists>y\<in>set xs. has_numeric_key y \<noteq> k \<Longrightarrow> sorted_from acc xs = Inl TypeError"
proof (induction xs arbitrary: acc)
  case Nil
  then show ?case by simp
next
  case (Cons x xs)
  from Cons.prems(1) obtain y ys where acc: "acc = y # ys" by (cases acc) auto
  show ?case
  proof (cases "has_numeric_key x = k")
    case False
    with Cons.prems(2) acc have "has_numeric_key x \<noteq> has_numeric_key y" by auto
    then have "insert_item x acc = Inl TypeError"
      unfolding acc by (rule insert_item_mixed)
    then show ?thesis by (simp add: bindE_def)
  next
    case True
    with Cons.prems(2) obtain r where r: "insert_item x acc = Inr r"
      using insert_item_same [of acc x] by auto
    then have m: "mset r = add_mset x (mset acc)" by (rule insert_item_mset)
    then have "set r = insert x (set acc)" by (metis set_mset_add_mset_insert set_mset_mset)
    with True Cons.prems(2) have 1: "\<forall>y\<in>set r. has_numeric_key y = k" and 2: "r \<noteq> []" by auto
    from True Cons.prems(3) have 3: "\<exists>y\<in>set xs. has_numeric_key y \<noteq> k" by auto
    show ?thesis using Cons.IH [OF 2 1 3] r by (simp add: bindE_def)
  qed
qed

lemma py_sorted_mixed:
  assumes "a \<in> set items" "b \<in> set items" "has_numeric_key a" "\<not> has_numeric_key b"
  shows "py_sorted items = Inl TypeError"
proof (cases items)
  case Nil
  with assms show ?thesis by simp
next
  case (Cons x xs)
  have "\<exists>y\<in>set xs. has_numeric_key y \<noteq> has_numeric_key x"
    using assms Cons by (cases "has_numeric_key x") auto
  then have "sorted_from [x] xs = Inl TypeError"
    by (intro sorted_from_mixed [where k = "has_numeric_key x"]) auto
  then show ?thesis by (simp add: py_sorted_def Cons bindE_def)
qed

lemma sorted_from_mset:
  "sorted_from acc xs = Inr r \<Longrightarrow> mset r = mset acc + mset xs"
proof (induction xs arbitrary: acc)
  case Nil
  then show ?case by simp
next
  case (Cons x xs)
  then show ?case
    by (auto simp: bindE_def split: sum.splits dest!: insert_item_mset)
qed

lemma py_sorted_mset: "py_sorted items = Inr r \<Longrightarrow> mset r = mset items"
  by (auto simp: py_sorted_def dest: sorted_from_mset)

lemma sorted_from_uniform:
  "\<forall>y\<in>set (acc @ xs). has_numeric_key y = k \<Longrightarrow> \<exists>r. sorted_from acc xs = Inr r"
proof (induction xs arbitrary: acc)
  case Nil
  then show ?case by simp
next
  case (Cons x xs)
  then obtain r where r: "insert_item x acc = Inr r"
    using insert_item_same [of acc x] by auto
  then have "mset r = add_mset x (mset acc)" by (rule insert_item_mset)
  then have "set r = insert x (set acc)" by (metis set_mset_add_mset_insert set_mset_mset)
  with Cons.prems have "\<forall>y\<in>set (r @ xs). has_numeric_key y = k" by auto
  from Cons.IH [OF this] r show ?case by (simp add: bindE_def)
qed


lemma py_sorted_uniform:
  assumes "\<forall>y\<in>set items. has_numeric_key y = k"
  shows "\<exists>r. py_sorted items = Inr r \<and> mset r = mset items"
proof -
  from assms have "\<forall>y\<in>set ([] @ items). has_numeric_key y = k" by simp
  then obtain r where "sorted_from [] items = Inr r"
    using sorted_from_uniform by blast
  then show ?thesis by (auto simp: py_sorted_def dest: sorted_from_mset)
qed

lemma natural_sort_example:
  "py_sorted [(''1.10'', 1), (''1.2'', 1), (''1.9'', 1)]
     = Inr [(''1.2'', 1), (''1.9'', 1), (''1.10'', 1)]"
  by code_simp

lemma dict_incr_keys:
  "map fst (dict_incr d k) = (if k \<in> fst ` set d then map fst d else map fst d @ [k])"
  by (induction d k rule: dict_incr.induct) auto

lemma dict_incr_key_set: "fst ` set (dict_incr d k) = insert k (fst ` set d)"
proof -
  have "set (map fst (dict_incr d k)) = insert k (set (map fst d))"
    by (subst dict_incr_keys) auto
  then show ?thesis by simp
qed

lemma dict_incr_sum: "sum_list (map snd (dict_incr d k)) = Suc (sum_list (map snd d))"
  by (induction d k rule: dict_incr.induct) auto

lemma counts_fold_keys:
  "fst ` set (foldl (\<lambda>d q. dict_incr d (f q)) d qs) = fst ` set d \<union> f ` set qs"
  by (induction qs arbitrary: d) (simp_all add: dict_incr_key_set)

lemma counts_fold_distinct:
  "distinct (map fst d) \<Longrightarrow> distinct (map fst (foldl (\<lambda>d q. dict_incr d (f q)) d qs))"
proof (induction qs arbitrary: d)
  case Nil
  then show ?case by simp
next
  case (Cons q qs)
  have "distinct (map fst (dict_incr d (f q)))"
    using Cons.prems by (simp add: dict_incr_keys)
  then show ?case using Cons.IH by simp
qed

lemma counts_fold_sum:
  "sum_list (map snd (foldl (\<lambda>d q. dict_incr d (f q)) d qs)) = sum_list (map snd d) + length qs"
  by (induction qs arbitrary: d) (simp_all add: dict_incr_sum)

lemma section_counts_keys:
  "fst ` set (section_counts questions section_id) = q_section section_id ` set questions"
  by (simp add: section_counts_def counts_fold_keys)

lemma section_counts_distinct: "distinct (map fst (section_counts questions section_id))"
  by (simp add: section_counts_def counts_fold_distinct)

lemma section_counts_sum:
  "sum_list (map snd (section_counts questions section_id)) = length questions"
  by (simp add: section_counts_def counts_fold_sum)

lemma section_counts_length:
  "length (section_counts questions section_id) = card (q_section section_id ` set questions)"
proof -
  have "card (set (map fst (section_counts questions section_id)))
          = length (map fst (section_counts questions section_id))"
    by (rule distinct_card [OF section_counts_distinct])
  then show ?thesis by (simp add: section_counts_keys)
qed

text \<open>
  C1. The specification wants the Track Details block built without an exception when
  some source tags have two or more numeric groups and some do not, the numeric ones
  first. The program does not do so: as soon as one question's tag has a numeric key and
  another's has a string key, \<^verbatim>\<open>sorted\<close> raises \<^verbatim>\<open>TypeError\<close> and
  \<^verbatim>\<open>create_xlsx_output\<close> produces nothing.
\<close>

theorem track_details_mixed_raises:
  assumes "a \<in> set questions" and "b \<in> set questions"
    and "2 \<le> length (digit_runs [] (q_section section_id a))"
    and "length (digit_runs [] (q_section section_id b)) < 2"
  shows "track_details questions section_id = Inl TypeError
       \<and> create_xlsx_output questions section_id = Inl TypeError"
proof -
  let ?d = "section_counts questions section_id"
  from assms(1) have "q_section section_id a \<in> fst ` set ?d"
    by (simp add: section_counts_keys)
  then obtain ca where ca: "(q_section section_id a, ca) \<in> set ?d" by auto
  from assms(2) have "q_section section_id b \<in> fst ` set ?d"
    by (simp add: section_counts_keys)
  then obtain cb where cb: "(q_section section_id b, cb) \<in> set ?d" by auto
  have "py_sorted ?d = Inl TypeError"
    using ca cb assms(3,4)
    by (intro py_sorted_mixed [of "(q_section section_id a, ca)" _ "(q_section section_id b, cb)"])
       (simp_all add: has_numeric_key_def)
  then have t: "track_details questions section_id = Inl TypeError"
    by (simp add: track_details_def)
  then show ?thesis
    by (simp add: create_xlsx_output_def debug_sheet_def bindE_def Let_def)
qed


text \<open>The tags ``1.2'' and ``Intro'' together.\<close>

theorem track_details_mixed_raises_witness:
  "2 \<le> length (digit_runs [] ''1.2'') \<and> length (digit_runs [] ''Intro'') < 2
   \<and> create_xlsx_output [numbered_question, unnumbered_question] ''DTOX101-LESSON1''
       = Inl TypeError"
proof -
  have a: "2 \<le> length (digit_runs [] (q_section ''DTOX101-LESSON1'' numbered_question))"
    by code_simp
  have b: "length (digit_runs [] (q_section ''DTOX101-LESSON1'' unnumbered_question)) < 2"
    by code_simp
  have c: "2 \<le> length (digit_runs [] ''1.2'') \<and> length (digit_runs [] ''Intro'') < 2"
    by code_simp
  have "numbered_question \<in> set [numbered_question, unnumbered_question]"
    and "unnumbered_question \<in> set [numbered_question, unnumbered_question]"
    by simp_all
  from track_details_mixed_raises [OF this a b] c show ?thesis by simp
qed

section \<open>What the table builder returns\<close>

text \<open>An exception of the table builder is one of the two named above.\<close>

lemma insert_item_Inl: "insert_item x acc = Inl e \<Longrightarrow> e = TypeError"
proof (induction acc)
  case Nil
  then show ?case by simp
next
  case (Cons y ys)
  show ?case
  proof (cases "key_lt (natural_sort_key x) (natural_sort_key y)")
    case (Inl e')
    then have "e' = TypeError"
      by (cases "natural_sort_key x"; cases "natural_sort_key y") auto
    with Inl Cons.prems show ?thesis by (simp add: bindE_def)
  next
    case (Inr b)
    with Cons show ?thesis
      by (auto simp: bindE_def split: if_splits sum.splits)
  qed
qed

lemma sorted_from_Inl: "sorted_from acc xs = Inl e \<Longrightarrow> e = TypeError"
proof (induction xs arbitrary: acc)
  case Nil
  then show ?case by simp
next
  case (Cons x xs)
  then show ?case
    by (auto simp: bindE_def split: sum.splits dest: insert_item_Inl)
qed

lemma track_details_Inl:
  assumes "track_details questions section_id = Inl e"
  shows "e = TypeError \<and> mixed_tags questions section_id"
proof -
  from assms have e: "e = TypeError"
    by (auto simp: track_details_def py_sorted_def dest: sorted_from_Inl)
  have "mixed_tags questions section_id"
  proof (rule ccontr)
    assume n: "\<not> mixed_tags questions section_id"
    let ?d = "section_counts questions section_id"
    have "\<exists>k. \<forall>y\<in>set ?d. has_numeric_key y = k"
    proof (cases "\<exists>q\<in>set questions. 2 \<le> length (digit_runs [] (q_section section_id q))")
      case True
      with n have all: "\<forall>q\<in>set questions. 2 \<le> length (digit_runs [] (q_section section_id q))"
        by (auto simp: mixed_tags_def list_ex_iff not_less)
      have "\<forall>y\<in>set ?d. has_numeric_key y = True"
      proof
        fix y assume "y \<in> set ?d"
        then have "fst y \<in> fst ` set ?d" by simp
        then obtain q where "q \<in> set questions" "fst y = q_section section_id q"
          by (auto simp: section_counts_keys)
        with all show "has_numeric_key y = True" by (simp add: has_numeric_key_def)
      qed
      then show ?thesis ..
    next
      case False
      have "\<forall>y\<in>set ?d. has_numeric_key y = False"
      proof
        fix y assume "y \<in> set ?d"
        then have "fst y \<in> fst ` set ?d" by simp
        then obtain q where "q \<in> set questions" "fst y = q_section section_id q"
          by (auto simp: section_counts_keys)
        with False show "has_numeric_key y = False" by (auto simp: has_numeric_key_def)
      qed
      then show ?thesis ..
    qed
    then obtain r where "py_sorted ?d = Inr r"
      using py_sorted_uniform by blast
    with assms show False by (simp add: track_details_def)
  qed
  with e show ?thesis by simp
qed

lemma correct_letters_Inl:
  "correct_letters idxs = Inl e \<Longrightarrow>
     e = ValueError \<and> list_ex (\<lambda>idx. 65 + idx < 0 \<or> 1114112 \<le> 65 + idx) idxs"
proof (induction idxs)
  case Nil
  then show ?case by simp
next
  case (Cons i rest)
  then show ?case
    by (auto simp: bindE_def chr_def split: sum.splits if_splits)
qed

lemma audit_row_Inl:
  "audit_row section_id i q = Inl e \<Longrightarrow>
     e = ValueError \<and> list_ex (\<lambda>idx. 65 + idx < 0 \<or> 1114112 \<le> 65 + idx) (correct_indices q)"
  by (auto simp: audit_row_def correct_letter_def bindE_def split: sum.splits if_splits
           dest: correct_letters_Inl)

lemma audit_rows_Inl:
  "audit_rows section_id i questions = Inl e \<Longrightarrow> e = ValueError \<and> letter_out_of_range questions"
proof (induction questions arbitrary: i)
  case Nil
  then show ?case by simp
next
  case (Cons q qs)
  show ?case
  proof (cases "audit_row section_id i q")
    case (Inl e')
    with Cons.prems have "e' = e" by (simp add: bindE_def)
    with audit_row_Inl [OF Inl] show ?thesis by (simp add: letter_out_of_range_def)
  next
    case (Inr r)
    with Cons.prems have "audit_rows section_id (Suc i) qs = Inl e"
      by (auto simp: bindE_def split: sum.splits)
    from Cons.IH [OF this] show ?thesis by (simp add: letter_out_of_range_def)
  qed
qed

lemma audit_rows_Inr:
  "audit_rows section_id i questions = Inr audit \<Longrightarrow>
     length audit = length questions
     \<and> map (\<lambda>r. r ! 1) audit = map (\<lambda>k. str_cell (str_nat k)) [i..<i + length questions]
     \<and> map (\<lambda>r. r ! 2) audit = map (\<lambda>q. str_cell (question_preview (question q))) questions"
proof (induction questions arbitrary: i audit)
  case Nil
  then show ?case by simp
next
  case (Cons q qs)
  from Cons.prems obtain r rs where
    r: "audit_row section_id i q = Inr r" and rs: "audit_rows section_id (Suc i) qs = Inr rs"
    and a: "audit = r # rs"
    by (auto simp: bindE_def split: sum.splits)
  from r have r1: "r ! 1 = str_cell (str_nat i)" and r2: "r ! 2 = str_cell (question_preview (question q))"
    by (auto simp: audit_row_def bindE_def split: sum.splits)
  have u: "[i..<i + length (q # qs)] = i # [Suc i..<Suc i + length qs]"
    by (subst upt_conv_Cons) simp_all
  from Cons.IH [OF rs] r1 r2 show ?case
    unfolding u by (simp add: a del: upt_Suc)
qed

lemma create_xlsx_output_Inl:
  assumes "create_xlsx_output questions section_id = Inl e"
  shows "(e = TypeError \<and> mixed_tags questions section_id)
       \<or> (e = ValueError \<and> letter_out_of_range questions)"
proof (cases "track_details questions section_id")
  case (Inl e')
  with assms have "e' = e"
    by (simp add: create_xlsx_output_def debug_sheet_def bindE_def Let_def)
  with track_details_Inl [OF Inl] show ?thesis by simp
next
  case (Inr items)
  with assms have "audit_rows section_id 1 questions = Inl e"
    by (auto simp: create_xlsx_output_def debug_sheet_def bindE_def Let_def split: sum.splits)
  from audit_rows_Inl [OF this] show ?thesis by simp
qed

lemma create_xlsx_output_Inr:
  assumes "create_xlsx_output questions section_id = Inr (sheet, debug, n)"
  shows "\<exists>items audit.
           track_details questions section_id = Inr items
         \<and> audit_rows section_id 1 questions = Inr audit
         \<and> sheet = questions_sheet questions section_id
         \<and> debug = summary_rows questions section_id @ map track_row items @ errors_rows @ audit
         \<and> n = length questions"
  using assms
  by (auto simp: create_xlsx_output_def debug_sheet_def bindE_def Let_def split: sum.splits)

text \<open>
  C6. For \<open>N\<close> questions with choice counts \<open>c\<^sub>1..c\<^sub>N\<close> the Questions sheet is its header
  row followed, question by question, by one data row for each choice and then one row
  of seven empty cells; a question without choices contributes that blank row alone. So
  the body has exactly \<open>N + (c\<^sub>1 + \<dots> + c\<^sub>N)\<close> rows. The first data row of a question
  carries its type, text, explanation and section ID, every data row carries its choice
  and the marker of that choice. This is the sheet \<^verbatim>\<open>create_xlsx_output\<close> hands on
  whenever it does not raise.
\<close>

theorem questions_sheet_rows:
  "questions_sheet questions section_id =
     [''Type'', ''Question'', ''Explanation'', ''Answer'', ''Correct'', ''Meta Key'', ''Meta Value'']
     # concat (map (\<lambda>q.
         map (\<lambda>i. if i = 0
               then [case qtype q of TF \<Rightarrow> ''TF'' | MC \<Rightarrow> ''MC'' | MA \<Rightarrow> ''MA'',
                     question q, explanation q, choices q ! 0,
                     if 0 \<in> set (correct_indices q) then ''1'' else [], ''ID'',
                     if source q = [] then section_id else source q]
               else [[], [], [], choices q ! i,
                     if int i \<in> set (correct_indices q) then ''1'' else [], [], []])
             [0..<length (choices q)]
         @ [[[], [], [], [], [], [], []]]) questions)
   \<and> length (tl (questions_sheet questions section_id))
       = length questions + sum_list (map (\<lambda>q. length (choices q)) questions)
   \<and> (case create_xlsx_output questions section_id of
         Inl e \<Rightarrow> (e = TypeError \<and> mixed_tags questions section_id)
                  \<or> (e = ValueError \<and> letter_out_of_range questions)
       | Inr (sheet, debug, n) \<Rightarrow>
           sheet = questions_sheet questions section_id \<and> n = length questions)"
proof -
  have a: "questions_sheet questions section_id =
     [''Type'', ''Question'', ''Explanation'', ''Answer'', ''Correct'', ''Meta Key'', ''Meta Value'']
     # concat (map (\<lambda>q.
         map (\<lambda>i. if i = 0
               then [case qtype q of TF \<Rightarrow> ''TF'' | MC \<Rightarrow> ''MC'' | MA \<Rightarrow> ''MA'',
                     question q, explanation q, choices q ! 0,
                     if 0 \<in> set (correct_indices q) then ''1'' else [], ''ID'',
                     if source q = [] then section_id else source q]
               else [[], [], [], choices q ! i,
                     if int i \<in> set (correct_indices q) then ''1'' else [], [], []])
             [0..<length (choices q)]
         @ [[[], [], [], [], [], [], []]]) questions)"
  proof -
    have "question_rows section_id = (\<lambda>q.
         map (\<lambda>i. if i = 0
               then [case qtype q of TF \<Rightarrow> ''TF'' | MC \<Rightarrow> ''MC'' | MA \<Rightarrow> ''MA'',
                     question q, explanation q, choices q ! 0,
                     if 0 \<in> set (correct_indices q) then ''1'' else [], ''ID'',
                     if source q = [] then section_id else source q]
               else [[], [], [], choices q ! i,
                     if int i \<in> set (correct_indices q) then ''1'' else [], [], []])
             [0..<length (choices q)]
         @ [[[], [], [], [], [], [], []]])"
      by (rule ext) (rule question_rows_explicit)
    then show ?thesis by (simp only: questions_sheet_def header_row_def)
  qed
  have b: "length (tl (questions_sheet questions section_id))
       = length questions + sum_list (map (\<lambda>q. length (choices q)) questions)"
    by (simp add: questions_sheet_def questions_body_length)
  have c: "case create_xlsx_output questions section_id of
         Inl e \<Rightarrow> (e = TypeError \<and> mixed_tags questions section_id)
                  \<or> (e = ValueError \<and> letter_out_of_range questions)
       | Inr (sheet, debug, n) \<Rightarrow>
           sheet = questions_sheet questions section_id \<and> n = length questions"
  proof (cases "create_xlsx_output questions section_id")
    case (Inl e)
    from create_xlsx_output_Inl [OF Inl] Inl show ?thesis by simp
  next
    case (Inr t)
    obtain sheet debug n where t: "t = (sheet, debug, n)" by (cases t) auto
    from create_xlsx_output_Inr [OF Inr [unfolded t]] show ?thesis
      by (auto simp: Inr t)
  qed
  from a b c show ?thesis by (intro conjI)
qed

text \<open>The layout of the Debug sheet: summary, Track Details, the static rows, the audit
  rows.\<close>

lemma debug_layout:
  assumes "create_xlsx_output questions section_id = Inr (sheet, debug, n)"
  shows "\<exists>items audit.
           debug = summary_rows questions section_id @ map track_row items @ errors_rows @ audit
         \<and> mset items = mset (section_counts questions section_id)
         \<and> length audit = length questions
         \<and> map (\<lambda>r. r ! 1) audit = map (\<lambda>k. str_cell (str_nat k)) [1..<1 + length questions]
         \<and> map (\<lambda>r. r ! 2) audit = map (\<lambda>q. str_cell (question_preview (question q))) questions"
proof -
  from create_xlsx_output_Inr [OF assms] obtain items audit where
    t: "track_details questions section_id = Inr items" and
    a: "audit_rows section_id 1 questions = Inr audit" and
    d: "debug = summary_rows questions section_id @ map track_row items @ errors_rows @ audit"
    by blast
  from t have "mset items = mset (section_counts questions section_id)"
    by (simp add: track_details_def py_sorted_mset)
  with audit_rows_Inr [OF a] d show ?thesis by blast
qed

text \<open>
  C7. Whenever \<^verbatim>\<open>create_xlsx_output\<close> does not raise, the last rows of the Debug
  sheet are the audit rows, one for each question in order, numbered from 1, and the
  preview cell (the third) of the row of a question holds the whole question text when
  that has at most 50 characters, and its first 47 characters followed by three dots
  otherwise; the preview is never longer than 50 characters, so a text of 50 characters
  is shown as it is and one of 60 is cut to 50.
\<close>

theorem debug_preview_cells:
  "case create_xlsx_output questions section_id of
     Inl e \<Rightarrow> (e = TypeError \<and> mixed_tags questions section_id)
              \<or> (e = ValueError \<and> letter_out_of_range questions)
   | Inr (sheet, debug, n) \<Rightarrow>
       length questions \<le> length debug
     \<and> map (\<lambda>r. r ! 1) (drop (length debug - length questions) debug)
         = map (\<lambda>k. str_cell (str_nat k)) [1..<1 + length questions]
     \<and> map (\<lambda>r. r ! 2) (drop (length debug - length questions) debug)
         = map (\<lambda>q. str_cell (if length (question q) \<le> 50 then question q
                                else take 47 (question q) @ ''...'')) questions
     \<and> list_all (\<lambda>q. length (if length (question q) \<le> 50 then question q
                                else take 47 (question q) @ ''...'')
                        = min 50 (length (question q))) questions"
proof (cases "create_xlsx_output questions section_id")
  case (Inl e)
  from create_xlsx_output_Inl [OF Inl] Inl show ?thesis by simp
next
  case (Inr t)
  obtain sheet debug n where t: "t = (sheet, debug, n)" by (cases t) auto
  from debug_layout [OF Inr [unfolded t]] obtain items audit where
    d: "debug = summary_rows questions section_id @ map track_row items @ errors_rows @ audit" and
    l: "length audit = length questions" and
    n: "map (\<lambda>r. r ! 1) audit = map (\<lambda>k. str_cell (str_nat k)) [1..<1 + length questions]" and
    p: "map (\<lambda>r. r ! 2) audit = map (\<lambda>q. str_cell (question_preview (question q))) questions"
    by blast
  have dr: "drop (length debug - length questions) debug = audit"
    using l by (simp add: d)
  have pv: "map (\<lambda>r. r ! 2) audit
          = map (\<lambda>q. str_cell (if length (question q) \<le> 50 then question q
                                else take 47 (question q) @ ''...'')) questions"
    using p by (simp add: question_preview_def)
  have le: "length questions \<le> length debug" using l by (simp add: d)
  have la: "list_all (\<lambda>q. length (if length (question q) \<le> 50 then question q
                                else take 47 (question q) @ ''...'')
                        = min 50 (length (question q))) questions"
    by (simp add: list_all_iff)
  from le n pv la show ?thesis
    by (simp add: Inr t dr)
qed

text \<open>
  C9. Whenever \<^verbatim>\<open>create_xlsx_output\<close> does not raise, the Debug sheet begins with
  the summary rows and the Track Details rows, one row for each distinct source tag
  (the default standing in for an empty source) showing the tag and its count. The
  counts shown add up to the number of questions, which is the value of the Total
  Questions Parsed row, and the number of rows is the value of the Total Tracks/Sections
  row.
\<close>

theorem debug_counts_partition:
  "case create_xlsx_output questions section_id of
     Inl e \<Rightarrow> (e = TypeError \<and> mixed_tags questions section_id)
              \<or> (e = ValueError \<and> letter_out_of_range questions)
   | Inr (sheet, debug, n) \<Rightarrow>
       (\<exists>items.
          take (7 + length items) debug =
            [[str_cell ''Metric'', str_cell ''Value''],
             [str_cell ''Total Questions Parsed'', Num (sum_list (map snd items))],
             [str_cell ''Total Tracks/Sections'', Num (length items)],
             [str_cell ''Keep Answer Prefixes'', str_cell ''No''],
             [str_cell ''Parsing Errors'', Num 0],
             [str_cell []],
             [str_cell ''Track Details'']]
            @ map (\<lambda>item. [str_cell (''  '' @ fst item),
                            str_cell (str_nat (snd item) @ '' questions'')]) items
        \<and> debug ! (7 + length items) = [str_cell []]
        \<and> debug ! (8 + length items) = [str_cell ''Parsing Errors:'']
        \<and> sum_list (map snd items) = length questions
        \<and> distinct (map fst items)
        \<and> set (map fst items)
            = (\<lambda>q. if source q = [] then section_id else source q) ` set questions
        \<and> length items
            = card ((\<lambda>q. if source q = [] then section_id else source q) ` set questions))"
proof (cases "create_xlsx_output questions section_id")
  case (Inl e)
  from create_xlsx_output_Inl [OF Inl] Inl show ?thesis by simp
next
  case (Inr t)
  obtain sheet debug n where t: "t = (sheet, debug, n)" by (cases t) auto
  from debug_layout [OF Inr [unfolded t]] obtain items audit where
    d: "debug = summary_rows questions section_id @ map track_row items @ errors_rows @ audit" and
    m: "mset items = mset (section_counts questions section_id)"
    by blast
  let ?tag = "\<lambda>q. if source q = [] then section_id else source q"
  have tag: "q_section section_id = ?tag"
    by (auto simp: q_section_def fun_eq_iff)
  have s: "sum_list (map snd items) = length questions"
    using m section_counts_sum [of questions section_id] by (metis mset_map sum_mset_sum_list)
  have l: "length items = length (section_counts questions section_id)"
    using m by (metis size_mset)
  have mf: "mset (map fst items) = mset (map fst (section_counts questions section_id))"
    using m by (metis mset_map)
  have di: "distinct (map fst items)"
    using mf section_counts_distinct [of questions section_id] by (metis mset_eq_imp_distinct_iff)
  have se: "set (map fst items) = ?tag ` set questions"
    using mf section_counts_keys [of questions section_id] tag by (metis mset_eq_setD set_map)
  have ca: "length items = card (?tag ` set questions)"
    using l section_counts_length [of questions section_id] tag by simp
  have ls: "7 + length items = length (summary_rows questions section_id @ map track_row items)"
    by (simp add: summary_rows_def)
  have d': "debug = (summary_rows questions section_id @ map track_row items)
                    @ (errors_rows @ audit)"
    by (simp add: d)
  have tk: "take (7 + length items) debug = summary_rows questions section_id @ map track_row items"
    unfolding ls by (subst d') (rule append_eq_conv_conj [THEN iffD1, THEN conjunct1, symmetric, OF refl])
  have er: "debug ! (7 + length items + k) = (errors_rows @ audit) ! k" for k
    unfolding ls by (subst d') (rule nth_append_length_plus)
  have sm: "summary_rows questions section_id =
            [[str_cell ''Metric'', str_cell ''Value''],
             [str_cell ''Total Questions Parsed'', Num (sum_list (map snd items))],
             [str_cell ''Total Tracks/Sections'', Num (length items)],
             [str_cell ''Keep Answer Prefixes'', str_cell ''No''],
             [str_cell ''Parsing Errors'', Num 0],
             [str_cell []],
             [str_cell ''Track Details'']]"
    by (simp add: summary_rows_def s l)
  have tr: "map track_row items
          = map (\<lambda>item. [str_cell (''  '' @ fst item),
                          str_cell (str_nat (snd item) @ '' questions'')]) items"
    by (simp add: track_row_def)
  have e0: "debug ! (7 + length items) = [str_cell []]"
    using er [of 0] by (simp add: errors_rows_def)
  have "8 + length items = 7 + length items + 1" by simp
  then have e1: "debug ! (8 + length items) = [str_cell ''Parsing Errors:'']"
    using er [of 1] by (simp add: errors_rows_def)
  have "take (7 + length items) debug =
            [[str_cell ''Metric'', str_cell ''Value''],
             [str_cell ''Total Questions Parsed'', Num (sum_list (map snd items))],
             [str_cell ''Total Tracks/Sections'', Num (length items)],
             [str_cell ''Keep Answer Prefixes'', str_cell ''No''],
             [str_cell ''Parsing Errors'', Num 0],
             [str_cell []],
             [str_cell ''Track Details'']]
            @ map (\<lambda>item. [str_cell (''  '' @ fst item),
                            str_cell (str_nat (snd item) @ '' questions'')]) items"
    by (simp only: tk sm tr)
  with e0 e1 s di se ca have "\<exists>items.
          take (7 + length items) debug =
            [[str_cell ''Metric'', str_cell ''Value''],
             [str_cell ''Total Questions Parsed'', Num (sum_list (map snd items))],
             [str_cell ''Total Tracks/Sections'', Num (length items)],
             [str_cell ''Keep Answer Prefixes'', str_cell ''No''],
             [str_cell ''Parsing Errors'', Num 0],
             [str_cell []],
             [str_cell ''Track Details'']]
            @ map (\<lambda>item. [str_cell (''  '' @ fst item),
                            str_cell (str_nat (snd item) @ '' questions'')]) items
        \<and> debug ! (7 + length items) = [str_cell []]
        \<and> debug ! (8 + length items) = [str_cell ''Parsing Errors:'']
        \<and> sum_list (map snd items) = length questions
        \<and> distinct (map fst items)
        \<and> set (map fst items)
            = (\<lambda>q. if source q = [] then section_id else source q) ` set questions
        \<and> length items
            = card ((\<lambda>q. if source q = [] then section_id else source q) ` set questions)"
    by (intro exI [of _ items] conjI)
  then show ?thesis
    by (simp only: Inr t sum.case prod.case)
qed

text \<open>Three questions, two of them without a source, under the default ``1.10'': the tag
  ``1.2'' comes first, and the counts 1 and 2 add up to 3.\<close>

lemma three_questions_example:
  "create_xlsx_output [fallback_question, numbered_question, fallback_question] ''1.10''
     = Inr ([[''Type'', ''Question'', ''Explanation'', ''Answer'', ''Correct'', ''Meta Key'', ''Meta Value''],
             [''MC'', ''Q3'', [], ''a'', [], ''ID'', ''1.10''],
             [[], [], [], ''b'', ''1'', [], []],
             [[], [], [], [], [], [], []],
             [''MC'', ''Q1'', [], ''a'', ''1'', ''ID'', ''1.2''],
             [[], [], [], ''b'', [], [], []],
             [[], [], [], [], [], [], []],
             [''MC'', ''Q3'', [], ''a'', [], ''ID'', ''1.10''],
             [[], [], [], ''b'', ''1'', [], []],
             [[], [], [], [], [], [], []]],
            [[str_cell ''Metric'', str_cell ''Value''],
             [str_cell ''Total Questions Parsed'', Num 3],
             [str_cell ''Total Tracks/Sections'', Num 2],
             [str_cell ''Keep Answer Prefixes'', str_cell ''No''],
             [str_cell ''Parsing Errors'', Num 0],
             [str_cell []],
             [str_cell ''Track Details''],
             [str_cell ''  1.2'', str_cell ''1 questions''],
             [str_cell ''  1.10'', str_cell ''2 questions''],
             [str_cell []],
             [str_cell ''Parsing Errors:''],
             [str_cell ''  None detected''],
             [str_cell []],
             [str_cell ''Track'', str_cell ''Q#'', str_cell ''Question Preview'',
              str_cell ''Correct Answer'', str_cell ''Page Ref'', str_cell ''Has Explanation''],
             [str_cell ''1.10'', str_cell ''1'', str_cell ''Q3'', str_cell ''B'', str_cell [],
              str_cell ''No''],
             [str_cell ''1.2'', str_cell ''2'', str_cell ''Q1'', str_cell ''A'', str_cell [],
              str_cell ''No''],
             [str_cell ''1.10'', str_cell ''3'', str_cell ''Q3'', str_cell ''B'', str_cell [],
              str_cell ''No'']],
            3)"
  by code_simp

subsection \<open>Correct indices beyond the choices\<close>

text \<open>The answer 9 with four choices: no marker in the Questions sheet, the letter I in
  the audit row.\<close>

lemma nine_of_four_example:
  "create_xlsx_output
       [\<lparr>qtype = MC, question = ''Which?'', explanation = [],
          choices = [''a'', ''b'', ''c'', ''d''], correct_indices = [8], source = []\<rparr>]
       ''S''
     = Inr ([[''Type'', ''Question'', ''Explanation'', ''Answer'', ''Correct'', ''Meta Key'', ''Meta Value''],
             [''MC'', ''Which?'', [], ''a'', [], ''ID'', ''S''],
             [[], [], [], ''b'', [], [], []],
             [[], [], [], ''c'', [], [], []],
             [[], [], [], ''d'', [], [], []],
             [[], [], [], [], [], [], []]],
            [[str_cell ''Metric'', str_cell ''Value''],
             [str_cell ''Total Questions Parsed'', Num 1],
             [str_cell ''Total Tracks/Sections'', Num 1],
             [str_cell ''Keep Answer Prefixes'', str_cell ''No''],
             [str_cell ''Parsing Errors'', Num 0],
             [str_cell []],
             [str_cell ''Track Details''],
             [str_cell ''  S'', str_cell ''1 questions''],
             [str_cell []],
             [str_cell ''Parsing Errors:''],
             [str_cell ''  None detected''],
             [str_cell []],
             [str_cell ''Track'', str_cell ''Q#'', str_cell ''Question Preview'',
              str_cell ''Correct Answer'', str_cell ''Page Ref'', str_cell ''Has Explanation''],
             [str_cell ''S'', str_cell ''1'', str_cell ''Which?'', str_cell ''I'', str_cell [],
              str_cell ''No'']],
            1)"
  by code_simp

lemma big_int: "int_of (cps ''1114048'') = Inr 1114048"
  by (simp add: int_of_def cps_def dec_value_def isdecimal_cp_def)

lemma big_isdigit: "isdigit (cps ''1114048'')"
  by (simp add: isdigit_def isdigit_cp_def cps_def isdecimal_cp_def)

lemma big_chr: "chr (65 + 1114047) = Inl ValueError"
  by (simp add: chr_def)

lemma big_resolve:
  "resolve_answer MC ''1114048'' [''a'', ''b'', ''c'', ''d''] = Inr (MC, [1114047])"
proof -
  have "lower ''1114048'' = ''1114048''" by code_simp
  then show ?thesis
    by (simp add: resolve_answer_def big_isdigit big_int bindE_def)
qed


lemma huge_parse_row: "parse_row huge_answer_row = Inr (Some huge_index_question)"
proof -
  have "\<not> skip_row huge_answer_row"
    and "get_stripped huge_answer_row ''Explanation'' = Inr []"
    and "get_stripped huge_answer_row ''Source'' = Inr []"
    and "extract_choices huge_answer_row 1 = [''a'', ''b'', ''c'', ''d'']"
    and "get_stripped huge_answer_row ''Correct Answer'' = Inr ''1114048''"
    and "base_type [''a'', ''b'', ''c'', ''d''] = MC"
    and "question_text huge_answer_row = ''Which?''"
    by code_simp+
  then show ?thesis
    by (simp add: parse_row_def big_resolve bindE_def huge_index_question_def)
qed

lemma huge_create: "create_xlsx_output [huge_index_question] section_id = Inl ValueError"
proof -
  have "track_details [huge_index_question] section_id = Inr [(section_id, 1)]"
    by (simp add: track_details_def section_counts_def py_sorted_def bindE_def
          huge_index_question_def q_section_def)
  moreover have "correct_letter huge_index_question = Inl ValueError"
    by (simp add: correct_letter_def huge_index_question_def chr_def bindE_def)
  ultimately show ?thesis
    by (simp add: create_xlsx_output_def debug_sheet_def audit_row_def bindE_def Let_def)
qed

text \<open>
  C10. The specification wants a correct index outside the range of the choices to mark
  no row of the Questions sheet and still to show as a character in the Correct Answer
  cell of the audit row, as the answer 9 with four choices does (no marker, the letter
  I). The program turns every index into a character with \<^verbatim>\<open>chr(65 + idx)\<close>, which
  raises \<^verbatim>\<open>ValueError\<close> from the index 1114047 on: the answer 1114048 with four
  choices parses to that index, and then no sheet is produced at all.
\<close>

theorem huge_index_raises:
  "parse_csv_questions [huge_answer_row] = Inr [huge_index_question]
   \<and> length (choices huge_index_question) = 4
   \<and> correct_indices huge_index_question = [1114047]
   \<and> create_xlsx_output [huge_index_question] ''DTOX101-LESSON1'' = Inl ValueError
   \<and> main [huge_answer_row] ''QUIZ'' = Uncaught ValueError"
proof -
  have p: "parse_csv_questions [huge_answer_row] = Inr [huge_index_question]"
    by (simp add: huge_parse_row bindE_def)
  have s: "source huge_index_question = []"
    by (simp add: huge_index_question_def)
  have m: "main [huge_answer_row] ''QUIZ'' = Uncaught ValueError"
    unfolding main_def p by (simp add: s huge_create)
  from p m huge_create [of "''DTOX101-LESSON1''"] show ?thesis
    by (simp add: huge_index_question_def)
qed

section \<open>Properties of the run\<close>

text \<open>The run ends in \<^verbatim>\<open>sys.exit(1)\<close> exactly when the parse returns no question, and
  it writes sheets only when the parse returned some.\<close>

lemma main_exit_iff:
  "(main rows filename_id = SysExit n) = (n = 1 \<and> parse_csv_questions rows = Inr [])"
  by (auto simp: main_def Let_def split: sum.splits list.splits prod.splits)

lemma main_converted_nonempty:
  "main rows filename_id = Converted sheet debug \<Longrightarrow>
     \<exists>q qs. parse_csv_questions rows = Inr (q # qs)"
  by (auto simp: main_def Let_def split: sum.splits list.splits prod.splits)

text \<open>
  C5. The specification wants the parser to raise no error on any correct-answer field
  and the run to fail exactly when no question is parsed. Two rows with the source tags ``1.2''
  and ``Intro'' parse into two questions, and the run ends in an uncaught
  \<^verbatim>\<open>TypeError\<close>; a row whose correct answer is the superscript digit U+00B2 makes
  the parser itself raise \<^verbatim>\<open>ValueError\<close>.
\<close>

theorem run_aborts_with_questions:
  "parse_csv_questions
     [[(''Question'', PyStr ''Q1''), (''Choice 1'', PyStr ''a''), (''Correct Answer'', PyStr ''1''),
       (''Source'', PyStr ''1.2'')],
      [(''Question'', PyStr ''Q2''), (''Choice 1'', PyStr ''b''), (''Correct Answer'', PyStr ''1''),
       (''Source'', PyStr ''Intro'')]]
     = Inr [\<lparr>qtype = MC, question = ''Q1'', explanation = [], choices = [''a''],
              correct_indices = [0], source = ''1.2''\<rparr>,
            \<lparr>qtype = MC, question = ''Q2'', explanation = [], choices = [''b''],
              correct_indices = [0], source = ''Intro''\<rparr>]
   \<and> main
     [[(''Question'', PyStr ''Q1''), (''Choice 1'', PyStr ''a''), (''Correct Answer'', PyStr ''1''),
       (''Source'', PyStr ''1.2'')],
      [(''Question'', PyStr ''Q2''), (''Choice 1'', PyStr ''b''), (''Correct Answer'', PyStr ''1''),
       (''Source'', PyStr ''Intro'')]] ''QUIZ''
     = Uncaught TypeError
   \<and> main
     [[(''Question'', PyStr ''Q1''), (''Choice 1'', PyStr ''a''),
       (''Correct Answer'', PyStr [CHR 0xB2])]] ''QUIZ''
     = Uncaught ValueError"
  by code_simp

text \<open>The parser reads a row through lookups only, so it cannot tell two listings of the
  same dictionary apart.\<close>

lemma extract_choices_map_of:
  "map_of row1 = map_of row2 \<Longrightarrow> extract_choices row1 i = extract_choices row2 i"
proof (induction row1 i rule: extract_choices.induct)
  case (1 row i)
  have h: "has_choice row i = has_choice row2 i" and c: "choice_at row i = choice_at row2 i"
    using "1.prems" by (simp_all add: has_choice_def choice_at_def)
  show ?case
  proof (cases "has_choice row i")
    case True
    from "1.IH" [OF True "1.prems"] True h c show ?thesis
      by (simp add: extract_choices.simps [of row i] extract_choices.simps [of row2 i])
  next
    case False
    with h show ?thesis
      by (simp add: extract_choices.simps [of row i] extract_choices.simps [of row2 i])
  qed
qed

lemma parse_row_map_of:
  assumes "map_of row1 = map_of row2"
  shows "parse_row row1 = parse_row row2"
proof -
  have "skip_row row1 = skip_row row2" "question_text row1 = question_text row2"
    "\<And>k. get_stripped row1 k = get_stripped row2 k"
    using assms by (simp_all add: skip_row_def question_text_def get_stripped_def)
  then show ?thesis
    by (simp add: parse_row_def extract_choices_map_of [OF assms])
qed

lemma parse_csv_questions_map_of:
  "map map_of rows1 = map map_of rows2 \<Longrightarrow> parse_csv_questions rows1 = parse_csv_questions rows2"
proof (induction rows1 arbitrary: rows2)
  case Nil
  then show ?case by simp
next
  case (Cons row rows)
  then obtain row' rows' where r: "rows2 = row' # rows'" and
    m: "map_of row = map_of row'" and ms: "map map_of rows = map map_of rows'"
    by (cases rows2) auto
  from Cons.IH [OF ms] parse_row_map_of [OF m] show ?case
    by (simp add: r)
qed

end
